theory Spec2Isabelle
  imports Main "HOL-Library.Word" "HOL-Library.AList"
begin

unbundle bit_operations_syntax

section \<open>Strings and paths\<close>

text \<open>
  Paths, file names and keys are JavaScript strings; they are modelled as HOL strings.
  \<open>split_str c s\<close> is \<^verbatim>\<open>s.split(c)\<close> for a one-character separator: the empty
  string splits into one empty piece, and a separator at either end leaves an empty piece there.
\<close>

fun split_str :: "char \<Rightarrow> string \<Rightarrow> string list" where
  "split_str c [] = [[]]"
| "split_str c (x # xs) =
     (if x = c then [] # split_str c xs
      else (case split_str c xs of [] \<Rightarrow> [[x]] | w # ws \<Rightarrow> (x # w) # ws))"

text \<open>\<^verbatim>\<open>path.split('/').filter(p => p)\<close>: the non-empty segments of a path.\<close>

definition pathParts :: "string \<Rightarrow> string list" where
  "pathParts path = filter (\<lambda>p. p \<noteq> []) (split_str (CHR ''/'') path)"

text \<open>\<^verbatim>\<open>parts.join('/')\<close>.\<close>

fun join :: "string list \<Rightarrow> string" where
  "join [] = []"
| "join [s] = s"
| "join (s # t # ts) = s @ CHR ''/'' # join (t # ts)"

text \<open>\<^verbatim>\<open>s.startsWith(p)\<close>.\<close>

definition startsWith :: "'a list \<Rightarrow> 'a list \<Rightarrow> bool" where
  "startsWith s p \<longleftrightarrow> take (length p) s = p"

subsection \<open>resolvePath\<close>

text \<open>
  One turn of the loop over \<^verbatim>\<open>targetParts\<close> in \<^verbatim>\<open>VFSEngine.resolvePath\<close>:
  \<^verbatim>\<open>'.'\<close> continues, \<^verbatim>\<open>'..'\<close> pops when the stack is not empty, any other
  segment is pushed.
\<close>

definition resolveStep :: "string list \<Rightarrow> string \<Rightarrow> string list" where
  "resolveStep parts part =
     (if part = ''.'' then parts
      else if part = ''..'' then (if length parts > 0 then butlast parts else parts)
      else parts @ [part])"

text \<open>
  \<^verbatim>\<open>VFSEngine.resolvePath(fs, currentPath, targetPath)\<close>. The parameter \<^verbatim>\<open>fs\<close> is
  never read and is left out. A missing \<^verbatim>\<open>targetPath\<close> (\<^verbatim>\<open>undefined\<close>) and the empty
  string are both falsy and take the first branch, so both are the empty string here;
  likewise an empty \<^verbatim>\<open>currentPath\<close> is falsy in \<^verbatim>\<open>currentPath || '/'\<close>. The
  \<^verbatim>\<open>typeof currentPath !== 'string'\<close> guard cannot fire on a string.
\<close>

definition resolvePath :: "string \<Rightarrow> string \<Rightarrow> string" where
  "resolvePath currentPath targetPath =
     (if targetPath = [] then (if currentPath = [] then ''/'' else currentPath)
      else if startsWith targetPath ''/'' then targetPath
      else CHR ''/'' # join (foldl resolveStep (pathParts currentPath) (pathParts targetPath)))"

text \<open>
  A path is normalized when it is \<^verbatim>\<open>'/'\<close> followed by its own non-empty segments joined
  by single slashes (so it is rooted and has no empty segment), and none of the segments is
  \<^verbatim>\<open>'.'\<close> or \<^verbatim>\<open>'..'\<close>.
\<close>

definition normalized :: "string \<Rightarrow> bool" where
  "normalized p \<longleftrightarrow>
     p = CHR ''/'' # join (pathParts p) \<and> list_all (\<lambda>s. s \<noteq> ''.'' \<and> s \<noteq> ''..'') (pathParts p)"

text \<open>A segment that is not empty, holds no slash and is neither \<^verbatim>\<open>'.'\<close> nor \<^verbatim>\<open>'..'\<close>.\<close>

definition plainSegment :: "string \<Rightarrow> bool" where
  "plainSegment s \<longleftrightarrow> s \<noteq> [] \<and> CHR ''/'' \<notin> set s \<and> s \<noteq> ''.'' \<and> s \<noteq> ''..''"

section \<open>The filesystem tree\<close>

text \<open>
  File contents are strings of UTF-16 code units, because \<^verbatim>\<open>decrypt\<close> computes code
  units arithmetically (\<^verbatim>\<open>String.fromCharCode\<close>). \<open>js\<close> embeds a HOL string.
\<close>

type_synonym jsstring = "16 word list"

definition js :: "string \<Rightarrow> jsstring" where
  "js s = map of_char s"

text \<open>\<^verbatim>\<open>node.type\<close>: the code compares it with \<^verbatim>\<open>'file'\<close> and \<^verbatim>\<open>'dir'\<close> only.\<close>

datatype ntype = TFile | TDir | TOther string

text \<open>
  \<^verbatim>\<open>node.meta\<close>. The flags are read for truthiness only, so an absent flag is \<open>False\<close>.
  \<^verbatim>\<open>unlocksPaths\<close> and \<^verbatim>\<open>targetUsers\<close> are arrays when present.
\<close>

record nodeMeta =
  locked :: bool
  encrypted :: bool
  decrypted :: bool
  securityFile :: bool
  unlocksPaths :: "string list option"
  targetUsers :: "nat list option"

definition emptyMeta :: nodeMeta where
  "emptyMeta = \<lparr>locked = False, encrypted = False, decrypted = False, securityFile = False,
     unlocksPaths = None, targetUsers = None\<rparr>"

text \<open>
  A node object \<^verbatim>\<open>{type, contents, children, meta}\<close>, every field but the type optional.
  \<^verbatim>\<open>children\<close> is an object used as a dictionary: an association list in the order
  \<^verbatim>\<open>Object.keys\<close> enumerates it, looked up with \<open>map_of\<close>. (Names that are properties
  of \<^verbatim>\<open>Object.prototype\<close> are outside the model.)
\<close>

datatype node = Node (ntype: ntype) (contents: "jsstring option")
  (children: "(string \<times> node) list option") (meta: "nodeMeta option")

definition setChildren :: "node \<Rightarrow> (string \<times> node) list option \<Rightarrow> node" where
  "setChildren n cs = Node (ntype n) (contents n) cs (meta n)"


definition setMeta :: "node \<Rightarrow> nodeMeta option \<Rightarrow> node" where
  "setMeta n m = Node (ntype n) (contents n) (children n) m"

text \<open>\<^verbatim>\<open>node.meta?.locked\<close>, \<^verbatim>\<open>node.meta || {}\<close>.\<close>

definition metaOf :: "node \<Rightarrow> nodeMeta" where
  "metaOf n = (case meta n of None \<Rightarrow> emptyMeta | Some m \<Rightarrow> m)"

definition isLocked :: "node \<Rightarrow> bool" where
  "isLocked n = locked (metaOf n)"

text \<open>The loop of \<^verbatim>\<open>VFSEngine.getNode\<close>: one child lookup per segment.\<close>

fun walk :: "node \<Rightarrow> string list \<Rightarrow> node option" where
  "walk current [] = Some current"
| "walk current (part # parts) =
     (case children current of
        None \<Rightarrow> None
      | Some cs \<Rightarrow> (case map_of cs part of None \<Rightarrow> None | Some child \<Rightarrow> walk child parts))"

text \<open>\<^verbatim>\<open>VFSEngine.getNode(fs, path)\<close>; \<^verbatim>\<open>fs\<close> is given by its root node.\<close>

definition getNode :: "node \<Rightarrow> string \<Rightarrow> node option" where
  "getNode fs path = (if path = ''/'' then Some fs else walk fs (pathParts path))"

text \<open>
  In-place mutation of the node that \<open>walk\<close> reaches along \<open>parts\<close>, as a rebuilt tree.
\<close>

fun modifyAt :: "string list \<Rightarrow> (node \<Rightarrow> node) \<Rightarrow> node \<Rightarrow> node" where
  "modifyAt [] f n = f n"
| "modifyAt (p # ps) f n =
     (case children n of
        None \<Rightarrow> n
      | Some cs \<Rightarrow>
          (case map_of cs p of
             None \<Rightarrow> n
           | Some c \<Rightarrow> setChildren n (Some (AList.update p (modifyAt ps f c) cs))))"

section \<open>Sessions\<close>

datatype aistatus = Idle | Probing | Alarm | OtherStatus string

record challenge =
  question :: string
  answer :: string

record aiState =
  level :: int
  status :: aistatus
  challenge :: "challenge option"

text \<open>
  The session object. \<open>fs\<close> is \<^verbatim>\<open>session.fs.root\<close>; \<open>unlockedPaths\<close> is the
  \<^verbatim>\<open>Set\<close> in insertion order (\<open>None\<close> when the field is absent); \<open>puzzleState\<close> maps a
  puzzle id to its \<^verbatim>\<open>solved\<close> flag; the two \<open>recentlyUnlocked\<close> fields are those of
  \<^verbatim>\<open>session.meta\<close>. User ids are the AUTOINCREMENT keys of the users table, so naturals.
  Time stamps and the command history are left out.
\<close>

record session =
  sid :: string
  userId :: nat
  username :: string
  fs :: node
  currentPath :: string
  puzzleState :: "(string \<times> bool) list"
  aiState :: "aiState option"
  frozen :: bool
  waitingRoom :: bool
  roundStarted :: bool
  unlockedPaths :: "string list option"
  recentlyUnlockedSessions :: "string list option"
  recentlyUnlockedPaths :: "string list option"

text \<open>
  \<^verbatim>\<open>`/server_room/access_point_${accessPointNum}`\<close>; the number is \<^verbatim>\<open>userId % 4 + 1\<close>,
  one of 1, 2, 3 and 4.
\<close>

definition accessPointPath :: "nat \<Rightarrow> string" where
  "accessPointPath accessPointNum =
     ''/server_room/access_point_''
       @ (if accessPointNum = 1 then ''1'' else if accessPointNum = 2 then ''2''
          else if accessPointNum = 3 then ''3'' else ''4'')"

text \<open>The state \<^verbatim>\<open>{ level: 0, status: 'idle', challenge: null }\<close> of a new session.\<close>

definition initialAI :: aiState where
  "initialAI = \<lparr>level = 0, status = Idle, challenge = None\<rparr>"

text \<open>
  \<^verbatim>\<open>SessionManager.createSession(userId, username)\<close>, with the fresh uuid and the campaign
  seed (already cloned) as parameters. The insertion into the registry and the row written to
  the sessions table are left out.
\<close>

definition createSession :: "string \<Rightarrow> node \<Rightarrow> nat \<Rightarrow> string \<Rightarrow> session" where
  "createSession sessionId filesystem uid uname =
     (let userAccessPoint = uid mod 4;
          accessPointNum = userAccessPoint + 1;
          initialUnlockedPaths = [''/'', ''/server_room'', accessPointPath accessPointNum]
      in \<lparr>sid = sessionId, userId = uid, username = uname, fs = filesystem,
           currentPath = accessPointPath accessPointNum, puzzleState = [],
           aiState = Some initialAI,
           frozen = False, waitingRoom = True, roundStarted = False,
           unlockedPaths = Some (remdups initialUnlockedPaths),
           recentlyUnlockedSessions = None, recentlyUnlockedPaths = None\<rparr>)"

section \<open>Reading operations of the VFS engine\<close>

text \<open>The errors the engine throws, one constructor per message.\<close>

datatype error =
    NoSuchFileOrDirectory
  | NoSuchFile
  | NoSuchDirectory
  | NotADirectory
  | NotAFile
  | PermissionDenied
  | NotEncrypted
  | InvalidKeyFormat
  | UnsupportedEncryptionFormat
  | InvalidDirectory
  | InvalidParentDirectory
  | AlreadyExists
  | TargetNotADirectory
  | AlreadyExistsInTarget
  | InvalidSourceParent
  | TypeError
  | SyntaxError
  | CyclicTree

text \<open>
  \<^verbatim>\<open>VFSEngine.isPathUnlocked(session, path)\<close>: no set means everything is allowed;
  otherwise some joined prefix of the segments (one segment at least) is in the set, or
  the path starts, as a string, with a member of the set.
\<close>

definition isPathUnlocked :: "session \<Rightarrow> string \<Rightarrow> bool" where
  "isPathUnlocked s path =
     (case unlockedPaths s of
        None \<Rightarrow> True
      | Some unl \<Rightarrow>
          (let parts = pathParts path
           in list_ex (\<lambda>i. CHR ''/'' # join (take i parts) \<in> set unl) [1..<Suc (length parts)]
              \<or> list_ex (\<lambda>unlocked. startsWith path unlocked) unl))"

record entry =
  name :: string
  etype :: ntype
  size :: "nat option"
  emeta :: nodeMeta

text \<open>\<^verbatim>\<open>resolvedPath === '/' ? `/${name}` : `${resolvedPath}/${name}`\<close>.\<close>

definition childPath :: "string \<Rightarrow> string \<Rightarrow> string" where
  "childPath path nm = (if path = ''/'' then CHR ''/'' # nm else path @ CHR ''/'' # nm)"

definition entryOf :: "string \<Rightarrow> node \<Rightarrow> entry" where
  "entryOf nm child =
     \<lparr>name = nm, etype = ntype child,
      size = (if ntype child = TFile
              then Some (case contents child of None \<Rightarrow> 0 | Some c \<Rightarrow> length c) else None),
      emeta = metaOf child\<rparr>"

text \<open>\<^verbatim>\<open>VFSEngine.list(session, path)\<close>.\<close>

definition list_dir :: "session \<Rightarrow> string \<Rightarrow> error + entry list" where
  "list_dir s path =
     (let resolvedPath = resolvePath (currentPath s) path
      in case getNode (fs s) resolvedPath of
           None \<Rightarrow> Inl NoSuchFileOrDirectory
         | Some node \<Rightarrow>
             if ntype node \<noteq> TDir then Inl NotADirectory
             else if isLocked node then Inl PermissionDenied
             else if \<not> isPathUnlocked s resolvedPath then Inl PermissionDenied
             else
               (let cs = (case children node of None \<Rightarrow> [] | Some c \<Rightarrow> c)
                in Inr (map (\<lambda>(nm, child). entryOf nm child)
                          (filter (\<lambda>(nm, child). isPathUnlocked s (childPath resolvedPath nm)) cs))))"

text \<open>\<^verbatim>\<open>VFSEngine.readFile(session, path)\<close>.\<close>

definition readFile :: "session \<Rightarrow> string \<Rightarrow> error + (jsstring \<times> nodeMeta)" where
  "readFile s path =
     (let resolvedPath = resolvePath (currentPath s) path
      in case getNode (fs s) resolvedPath of
           None \<Rightarrow> Inl NoSuchFile
         | Some node \<Rightarrow>
             if ntype node \<noteq> TFile then Inl NotAFile
             else if isLocked node then Inl PermissionDenied
             else if \<not> isPathUnlocked s resolvedPath then Inl PermissionDenied
             else Inr (case contents node of None \<Rightarrow> [] | Some c \<Rightarrow> c, metaOf node))"

text \<open>\<^verbatim>\<open>VFSEngine.changeDirectory(session, path)\<close>: the outcome and the session after it.\<close>

definition changeDirectory :: "session \<Rightarrow> string \<Rightarrow> (error + string) \<times> session" where
  "changeDirectory s path =
     (let resolvedPath = resolvePath (currentPath s) path
      in case getNode (fs s) resolvedPath of
           None \<Rightarrow> (Inl NoSuchDirectory, s)
         | Some node \<Rightarrow>
             if ntype node \<noteq> TDir then (Inl NotADirectory, s)
             else if isLocked node then (Inl PermissionDenied, s)
             else if \<not> isPathUnlocked s resolvedPath then (Inl PermissionDenied, s)
             else (Inr resolvedPath, s\<lparr>currentPath := resolvedPath\<rparr>))"

text \<open>\<^verbatim>\<open>VFSEngine.setLock(session, path, locked)\<close>.\<close>

definition setLock :: "session \<Rightarrow> string \<Rightarrow> bool \<Rightarrow> (error + string \<times> bool) \<times> session" where
  "setLock s path lck =
     (let resolvedPath = resolvePath (currentPath s) path
      in case getNode (fs s) resolvedPath of
           None \<Rightarrow> (Inl NoSuchFileOrDirectory, s)
         | Some node \<Rightarrow>
             (Inr (resolvedPath, lck),
              s\<lparr>fs := modifyAt (pathParts resolvedPath)
                         (\<lambda>n. setMeta n (Some ((metaOf n)\<lparr>locked := lck\<rparr>))) (fs s)\<rparr>))"

section \<open>Mutating operations of the VFS engine\<close>

text \<open>
  \<^verbatim>\<open>parts.pop()\<close> used as a property name: popping the empty array gives
  \<^verbatim>\<open>undefined\<close>, which as a key is the string \<^verbatim>\<open>'undefined'\<close>.
\<close>

definition popName :: "string list \<Rightarrow> string" where
  "popName parts = (if parts = [] then ''undefined'' else last parts)"

text \<open>\<^verbatim>\<open>'/' + parts.join('/')\<close> after the pop.\<close>

definition parentPathOf :: "string list \<Rightarrow> string" where
  "parentPathOf parts = CHR ''/'' # join (butlast parts)"

text \<open>\<^verbatim>\<open>node.children || {}\<close>.\<close>

definition childrenOf :: "node \<Rightarrow> (string \<times> node) list" where
  "childrenOf n = (case children n of None \<Rightarrow> [] | Some cs \<Rightarrow> cs)"

text \<open>
  \<^verbatim>\<open>VFSEngine.addFile(session, path, contents, meta)\<close>; \<^verbatim>\<open>writeFile\<close> has the same
  body. The new child is appended to the dictionary, or replaces the entry of that name.
\<close>

definition addFile ::
  "session \<Rightarrow> string \<Rightarrow> jsstring option \<Rightarrow> nodeMeta \<Rightarrow> (error + string) \<times> session" where
  "addFile s path cont m =
     (let resolvedPath = resolvePath (currentPath s) path;
          parts = pathParts resolvedPath;
          filename = popName parts;
          dirPath = parentPathOf parts
      in case getNode (fs s) dirPath of
           None \<Rightarrow> (Inl InvalidDirectory, s)
         | Some dirNode \<Rightarrow>
             if ntype dirNode \<noteq> TDir then (Inl InvalidDirectory, s)
             else (Inr resolvedPath,
                   s\<lparr>fs := modifyAt (pathParts dirPath)
                      (\<lambda>n. setChildren n
                         (Some (AList.update filename (Node TFile cont None (Some m)) (childrenOf n))))
                      (fs s)\<rparr>))"

definition writeFile ::
  "session \<Rightarrow> string \<Rightarrow> jsstring option \<Rightarrow> nodeMeta \<Rightarrow> (error + string) \<times> session" where
  "writeFile = addFile"

subsection \<open>delete and the propagation of unlocks\<close>










subsection \<open>rename and move\<close>

text \<open>\<^verbatim>\<open>VFSEngine.rename(session, path, newName)\<close>.\<close>

definition rename :: "session \<Rightarrow> string \<Rightarrow> string \<Rightarrow> (error + string) \<times> session" where
  "rename s path newName =
     (let resolvedPath = resolvePath (currentPath s) path;
          parts = pathParts resolvedPath;
          oldName = popName parts;
          parentPath = parentPathOf parts
      in case getNode (fs s) parentPath of
           None \<Rightarrow> (Inl InvalidParentDirectory, s)
         | Some parentNode \<Rightarrow>
             if ntype parentNode \<noteq> TDir then (Inl InvalidParentDirectory, s)
             else
               (case map_of (childrenOf parentNode) oldName of
                  None \<Rightarrow> (Inl NoSuchFileOrDirectory, s)
                | Some moved \<Rightarrow>
                    if map_of (childrenOf parentNode) newName \<noteq> None then (Inl AlreadyExists, s)
                    else
                      (Inr (childPath parentPath newName),
                       s\<lparr>fs := modifyAt (pathParts parentPath)
                          (\<lambda>n. setChildren n
                             (Some (AList.delete oldName (AList.update newName moved (childrenOf n)))))
                          (fs s)\<rparr>)))"

text \<open>
  \<^verbatim>\<open>VFSEngine.move(session, sourcePath, targetPath)\<close>. The node is relinked by
  reference: inserted under the target first, then removed from the source parent. Moving the
  root itself would make the object graph cyclic, which a tree cannot show; that one case is
  reported as \<open>CyclicTree\<close>.
\<close>

definition move :: "session \<Rightarrow> string \<Rightarrow> string \<Rightarrow> (error + string) \<times> session" where
  "move s sourcePath targetPath =
     (let resolvedSource = resolvePath (currentPath s) sourcePath;
          resolvedTarget = resolvePath (currentPath s) targetPath
      in case getNode (fs s) resolvedSource of
           None \<Rightarrow> (Inl NoSuchFileOrDirectory, s)
         | Some sourceNode \<Rightarrow>
             (case getNode (fs s) resolvedTarget of
                None \<Rightarrow> (Inl TargetNotADirectory, s)
              | Some targetNode \<Rightarrow>
                  if ntype targetNode \<noteq> TDir then (Inl TargetNotADirectory, s)
                  else
                    (let sourceParts = pathParts resolvedSource;
                         sourceName = popName sourceParts
                     in if map_of (childrenOf targetNode) sourceName \<noteq> None
                        then (Inl AlreadyExistsInTarget, s)
                        else
                          (let sourceParentPath = parentPathOf sourceParts
                           in case getNode (fs s) sourceParentPath of
                                None \<Rightarrow> (Inl InvalidSourceParent, s)
                              | Some sourceParent \<Rightarrow>
                                  if children sourceParent = None then (Inl InvalidSourceParent, s)
                                  else if sourceParts = [] then (Inl CyclicTree, s)
                                  else
                                    (let fs1 = modifyAt (pathParts resolvedTarget)
                                           (\<lambda>n. setChildren n
                                              (Some (AList.update sourceName sourceNode (childrenOf n))))
                                           (fs s);
                                         fs2 = modifyAt (pathParts sourceParentPath)
                                           (\<lambda>n. setChildren n
                                              (map_option (AList.delete sourceName) (children n)))
                                           fs1
                                     in (Inr (childPath resolvedTarget sourceName),
                                         s\<lparr>fs := fs2\<rparr>))))))"

subsection \<open>decrypt\<close>















subsection \<open>search\<close>

datatype matchKind = Filename | Content

record searchResult =
  rpath :: string
  rtype :: ntype
  rmatch :: matchKind

text \<open>
  The recursive \<^verbatim>\<open>searchNode\<close> of \<^verbatim>\<open>VFSEngine.search\<close>; \<open>test\<close> is
  \<^verbatim>\<open>searchRegex.test\<close>. The results are in the order of the pushes.
\<close>

fun searchNode :: "(jsstring \<Rightarrow> bool) \<Rightarrow> node \<Rightarrow> string \<Rightarrow> searchResult list" where
  "searchNode test (Node t cont ch m) path =
     (if t = TFile then
        (let c = (case cont of None \<Rightarrow> [] | Some x \<Rightarrow> x)
         in if test (js path) \<or> test c
            then [\<lparr>rpath = path, rtype = TFile,
                   rmatch = (if test (js path) then Filename else Content)\<rparr>]
            else [])
      else if t = TDir then
        (case ch of
           None \<Rightarrow> []
         | Some cs \<Rightarrow> concat (map (\<lambda>(nm, child). searchNode test child (childPath path nm)) cs))
      else [])"

text \<open>
  \<^verbatim>\<open>VFSEngine.search(session, pattern)\<close>. The regular-expression engine is a parameter:
  \<open>regExp pattern\<close> is the \<^verbatim>\<open>test\<close> function of \<^verbatim>\<open>new RegExp(pattern, 'i')\<close>, or
  \<open>None\<close> when the constructor throws.
\<close>

definition search ::
  "(string \<Rightarrow> (jsstring \<Rightarrow> bool) option) \<Rightarrow> session \<Rightarrow> string \<Rightarrow> error + searchResult list" where
  "search regExp s pattern =
     (case regExp pattern of
        None \<Rightarrow> Inl SyntaxError
      | Some test \<Rightarrow> Inr (searchNode test (fs s) ''/''))"

text \<open>
  A file of the tree: reached from the root through directories only, one child name per
  step; \<open>pathFrom\<close> is the path that \<open>searchNode\<close> builds along the way.
\<close>

fun walkDirs :: "node \<Rightarrow> string list \<Rightarrow> node option" where
  "walkDirs current [] = Some current"
| "walkDirs current (nm # names) =
     (if ntype current \<noteq> TDir then None
      else case map_of (childrenOf current) nm of
             None \<Rightarrow> None
           | Some child \<Rightarrow> walkDirs child names)"

fun pathFrom :: "string \<Rightarrow> string list \<Rightarrow> string" where
  "pathFrom path [] = path"
| "pathFrom path (nm # names) = pathFrom (childPath path nm) names"

text \<open>The same tree without any metadata, so without any \<open>locked\<close> flag.\<close>

fun stripMeta :: "node \<Rightarrow> node" where
  "stripMeta (Node t cont ch m) =
     Node t cont (map_option (map (\<lambda>(nm, child). (nm, stripMeta child))) ch) None"



section \<open>The security AI\<close>

datatype eventType = SuspiciousCommand | FailedPuzzle | AdminEscalate | OtherEvent string

text \<open>
  The messages of the engine, by kind; the trace message carries its percentage. The time
  stamp of a message is left out.
\<close>

datatype aiMessage =
    LockdownMessage
  | TraceMessage int
  | FailedAuthMessage
  | CriticalAlertMessage
  | ChallengeMessage string

record response =
  message :: aiMessage
  shouldLogout :: bool

text \<open>
  \<^verbatim>\<open>AIEngine.trigger(session, eventType, data)\<close> on \<^verbatim>\<open>session.aiState\<close>, which is all
  it touches. \<open>rnd\<close> is \<^verbatim>\<open>Math.floor(Math.random() * 20)\<close>. The result is the returned
  message (\<open>None\<close> for \<^verbatim>\<open>null\<close>) and the state after the event.
\<close>

definition trigger :: "aiState \<Rightarrow> eventType \<Rightarrow> int \<Rightarrow> response option \<times> aiState" where
  "trigger state ev rnd =
     (case ev of
        SuspiciousCommand \<Rightarrow>
          (let st1 = state\<lparr>level := min (level state + 2) 10\<rparr>;
               st2 = (if status st1 = Idle then st1\<lparr>status := Probing\<rparr> else st1);
               baseTrace = level st2 * 10;
               randomVariation = rnd - 10;
               tracePercent = max 0 (min 100 (baseTrace + randomVariation))
           in if level st2 \<ge> 10
              then (Some \<lparr>message = LockdownMessage, shouldLogout = True\<rparr>, st2\<lparr>status := Alarm\<rparr>)
              else
                (let st3 = (if level st2 \<ge> 5 \<and> status st2 = Probing
                            then st2\<lparr>status := Alarm\<rparr> else st2)
                 in (Some \<lparr>message = TraceMessage tracePercent, shouldLogout = False\<rparr>, st3)))
      | FailedPuzzle \<Rightarrow>
          (let st1 = state\<lparr>level := min (level state + 1) 10\<rparr>;
               st2 = (if level st1 \<ge> 5 \<and> status st1 = Probing
                      then st1\<lparr>status := Alarm\<rparr> else st1)
           in (Some \<lparr>message = FailedAuthMessage, shouldLogout = False\<rparr>, st2))
      | AdminEscalate \<Rightarrow>
          (Some \<lparr>message = CriticalAlertMessage, shouldLogout = False\<rparr>,
           state\<lparr>level := min (level state + 3) 10, status := Alarm\<rparr>)
      | OtherEvent _ \<Rightarrow> (None, state))"

text \<open>
  \<^verbatim>\<open>AIEngine.setState(session, level, status)\<close>; a falsy status is \<open>None\<close>. The level is
  an integer here. The admin route passes \<^verbatim>\<open>req.body.level\<close> on unchecked, and
  \<^verbatim>\<open>Math.max(0, Math.min(level, 10))\<close> keeps a fractional level fractional and turns a
  missing one into \<^verbatim>\<open>NaN\<close>; such requests have no counterpart in this definition, so
  what is proved of it holds for integer levels only.
\<close>

definition setState :: "aiState \<Rightarrow> int \<Rightarrow> aistatus option \<Rightarrow> aiState" where
  "setState state lvl st =
     state\<lparr>level := max 0 (min lvl 10), status := (case st of None \<Rightarrow> Idle | Some x \<Rightarrow> x)\<rparr>"

text \<open>White space of \<^verbatim>\<open>String.prototype.trim\<close> among the characters below 256.\<close>

definition isSpace :: "char \<Rightarrow> bool" where
  "isSpace c \<longleftrightarrow> of_char c \<in> {9, 10, 11, 12, 13, 32, 160 :: nat}"

definition trim :: "string \<Rightarrow> string" where
  "trim s = rev (dropWhile isSpace (rev (dropWhile isSpace s)))"

text \<open>\<^verbatim>\<open>toLowerCase\<close> on the characters below 256.\<close>

definition lowerChar :: "char \<Rightarrow> char" where
  "lowerChar c =
     (let k = (of_char c :: nat)
      in if (65 \<le> k \<and> k \<le> 90) \<or> (192 \<le> k \<and> k \<le> 222 \<and> k \<noteq> 215) then char_of (k + 32) else c)"

definition toLowerCase :: "string \<Rightarrow> string" where
  "toLowerCase s = map lowerChar s"

text \<open>\<^verbatim>\<open>AIEngine.issueChallenge(session)\<close>; \<open>pick\<close> is the random index, 0 or 1.\<close>

definition challenges :: "challenge list" where
  "challenges =
     [\<lparr>question = ''What is the answer to life, the universe, and everything?'', answer = ''42''\<rparr>,
      \<lparr>question = ''What comes after 2, 3, 5, 7, 11?'', answer = ''13''\<rparr>]"

definition issueChallenge :: "aiState \<Rightarrow> nat \<Rightarrow> response \<times> aiState" where
  "issueChallenge state pick =
     (let ch = (if pick = 0 then challenges ! 0 else challenges ! 1)
      in (\<lparr>message = ChallengeMessage (question ch), shouldLogout = False\<rparr>,
          state\<lparr>challenge := Some ch\<rparr>))"

text \<open>
  \<^verbatim>\<open>AIEngine.validateChallenge(session, answer)\<close>: \<open>None\<close> is the bare \<^verbatim>\<open>false\<close>
  returned without a challenge, otherwise the \<^verbatim>\<open>success\<close> field of the result.
\<close>

definition validateChallenge :: "aiState \<Rightarrow> string \<Rightarrow> bool option \<times> aiState" where
  "validateChallenge state ans =
     (case challenge state of
        None \<Rightarrow> (None, state)
      | Some ch \<Rightarrow>
          (let correct = (toLowerCase (trim ans) = toLowerCase (answer ch))
           in if correct
              then (let st1 = state\<lparr>level := max 0 (level state - 2)\<rparr>;
                        st2 = (if level st1 \<le> 2 then st1\<lparr>status := Idle\<rparr> else st1)
                    in (Some True, st2\<lparr>challenge := None\<rparr>))
              else (Some False, state\<lparr>level := min (level state + 1) 10\<rparr>)))"

text \<open>A sequence of events, each with its random number, applied to a state.\<close>

definition runEvents :: "aiState \<Rightarrow> (eventType \<times> int) list \<Rightarrow> aiState" where
  "runEvents st evs = foldl (\<lambda>a (ev, rnd). snd (trigger a ev rnd)) st evs"

section \<open>The puzzle engine\<close>

text \<open>
  A puzzle definition as loaded from its JSON document. \<open>solved\<close> is the property of that
  name on the definition object itself (absent, so \<open>False\<close>, unless the document has it);
  the solved state of a session is kept in \<open>puzzleState\<close>.
\<close>

datatype effect =
    AddFile string "jsstring option" "nodeMeta option"
  | DecryptEffect string
  | Unlock string
  | Lock string
  | RaiseAlert "int option"
  | OtherAction string

datatype validation = NoValidate | ValidateString string | ValidateFunction string | ValidateOther

record ptrigger =
  ttype :: string
  tpath :: string

record puzzle =
  pid :: string
  solved :: bool
  triggers :: "ptrigger list"
  validate :: validation
  onSuccessEffects :: "effect list"
  onFailEffects :: "effect list"
  autoSolve :: bool

text \<open>\<^verbatim>\<open>contents.includes(expectedText)\<close>.\<close>

definition includes_str :: "'a list \<Rightarrow> 'a list \<Rightarrow> bool" where
  "includes_str s t = list_ex (\<lambda>i. startsWith (drop i s) t) [0..<Suc (length s)]"

text \<open>
  \<^verbatim>\<open>PuzzleEngine.executeEffect(session, effect)\<close>: the error thrown, if any, and the
  session after the effect. \<^verbatim>\<open>effect.level || 1\<close> is 1 for a missing level and for 0.
\<close>

definition executeEffect :: "session \<Rightarrow> effect \<Rightarrow> error option \<times> session" where
  "executeEffect s eff =
     (case eff of
        AddFile target cont m \<Rightarrow>
          (case addFile s target cont (case m of None \<Rightarrow> emptyMeta | Some x \<Rightarrow> x) of
             (Inl e, s') \<Rightarrow> (Some e, s')
           | (Inr _, s') \<Rightarrow> (None, s'))
      | DecryptEffect target \<Rightarrow>
          (case getNode (fs s) target of
             None \<Rightarrow> (None, s)
           | Some node \<Rightarrow>
               if encrypted (metaOf node)
               then (None, s\<lparr>fs := modifyAt (pathParts target)
                        (\<lambda>n. setMeta n (Some ((metaOf n)\<lparr>encrypted := False, decrypted := True\<rparr>)))
                        (fs s)\<rparr>)
               else (None, s))
      | Unlock target \<Rightarrow>
          (case setLock s target False of
             (Inl e, s') \<Rightarrow> (Some e, s')
           | (Inr _, s') \<Rightarrow> (None, s'))
      | Lock target \<Rightarrow>
          (case setLock s target True of
             (Inl e, s') \<Rightarrow> (Some e, s')
           | (Inr _, s') \<Rightarrow> (None, s'))
      | RaiseAlert lvl \<Rightarrow>
          (let st = (case aiState s of
                       None \<Rightarrow> \<lparr>level = 0, status = Idle, challenge = None\<rparr>
                     | Some a \<Rightarrow> a);
               amount = (case lvl of None \<Rightarrow> 1 | Some l \<Rightarrow> if l = 0 then 1 else l);
               st1 = st\<lparr>level := min (level st + amount) 10\<rparr>;
               st2 = (if status st1 = Idle then st1\<lparr>status := Probing\<rparr> else st1)
           in (None, s\<lparr>aiState := Some st2\<rparr>))
      | OtherAction _ \<Rightarrow> (None, s))"

text \<open>The loop \<^verbatim>\<open>for (const effect of effects)\<close>; a throw ends it.\<close>

fun runEffects :: "session \<Rightarrow> effect list \<Rightarrow> error option \<times> session" where
  "runEffects s [] = (None, s)"
| "runEffects s (eff # effs) =
     (case executeEffect s eff of
        (Some e, s') \<Rightarrow> (Some e, s')
      | (None, s') \<Rightarrow> runEffects s' effs)"

text \<open>
  \<^verbatim>\<open>PuzzleEngine.onSuccess\<close> and \<^verbatim>\<open>onFailure\<close>. The rows written to the
  \<^verbatim>\<open>puzzle_events\<close> table are left out.
\<close>

definition onSuccess :: "session \<Rightarrow> puzzle \<Rightarrow> error option \<times> session" where
  "onSuccess s p =
     runEffects (s\<lparr>puzzleState := AList.update (pid p) True (puzzleState s)\<rparr>) (onSuccessEffects p)"

definition onFailure :: "session \<Rightarrow> puzzle \<Rightarrow> error option \<times> session" where
  "onFailure s p = runEffects s (onFailEffects p)"

text \<open>
  \<^verbatim>\<open>PuzzleEngine.validateSolution(session, puzzle, {key, filePath})\<close>. \<open>runCode\<close> is the
  evaluation of an author's function body by \<^verbatim>\<open>new Function\<close>: the truth of what it
  returns, or \<open>None\<close> when it throws.
\<close>

definition validateSolution ::
  "(string \<Rightarrow> session \<Rightarrow> string \<Rightarrow> string \<Rightarrow> bool option) \<Rightarrow> session \<Rightarrow> puzzle \<Rightarrow> string \<Rightarrow> string
     \<Rightarrow> bool" where
  "validateSolution runCode s p key filePath =
     (case validate p of
        NoValidate \<Rightarrow> True
      | ValidateString v \<Rightarrow>
          if v = [] then True
          else if startsWith v ''key:'' then key = trim (drop 4 v)
          else if startsWith v ''file_contains:'' then
            (case readFile s filePath of
               Inl _ \<Rightarrow> False
             | Inr (cont, _) \<Rightarrow> includes_str cont (js (trim (drop 14 v))))
          else False
      | ValidateFunction code \<Rightarrow>
          (case runCode code s key filePath of None \<Rightarrow> False | Some b \<Rightarrow> b)
      | ValidateOther \<Rightarrow> False)"

text \<open>
  \<^verbatim>\<open>PuzzleEngine.checkDecrypt(session, filePath, key)\<close>: the loop over the triggers of
  one puzzle, then the loop over the loaded puzzles, which skips a puzzle on
  \<^verbatim>\<open>puzzle.solved\<close>. An error thrown by an effect ends both loops.
\<close>

fun decryptTriggers ::
  "(string \<Rightarrow> session \<Rightarrow> string \<Rightarrow> string \<Rightarrow> bool option) \<Rightarrow> session \<Rightarrow> puzzle \<Rightarrow> string \<Rightarrow> string
     \<Rightarrow> ptrigger list \<Rightarrow> error option \<times> session" where
  "decryptTriggers runCode s p filePath key [] = (None, s)"
| "decryptTriggers runCode s p filePath key (t # ts) =
     (if ttype t = ''decrypt'' \<and> tpath t = filePath then
        (case (if validateSolution runCode s p key filePath then onSuccess s p else onFailure s p) of
           (Some e, s') \<Rightarrow> (Some e, s')
         | (None, s') \<Rightarrow> decryptTriggers runCode s' p filePath key ts)
      else decryptTriggers runCode s p filePath key ts)"

fun checkDecrypt ::
  "(string \<Rightarrow> session \<Rightarrow> string \<Rightarrow> string \<Rightarrow> bool option) \<Rightarrow> puzzle list \<Rightarrow> session \<Rightarrow> string \<Rightarrow> string
     \<Rightarrow> error option \<times> session" where
  "checkDecrypt runCode [] s filePath key = (None, s)"
| "checkDecrypt runCode (p # puzzles) s filePath key =
     (if solved p then checkDecrypt runCode puzzles s filePath key
      else
        (case decryptTriggers runCode s p filePath key (triggers p) of
           (Some e, s') \<Rightarrow> (Some e, s')
         | (None, s') \<Rightarrow> checkDecrypt runCode puzzles s' filePath key))"

text \<open>
  \<^verbatim>\<open>PuzzleEngine.checkTrigger(session, type, path)\<close> with \<^verbatim>\<open>handleTrigger\<close>: this
  loop skips a puzzle on \<^verbatim>\<open>session.puzzleState[puzzle.id]?.solved\<close>.
\<close>

definition handleTrigger :: "session \<Rightarrow> puzzle \<Rightarrow> error option \<times> session" where
  "handleTrigger s p = (if autoSolve p then onSuccess s p else (None, s))"

fun matchTriggers ::
  "session \<Rightarrow> puzzle \<Rightarrow> string \<Rightarrow> string \<Rightarrow> ptrigger list \<Rightarrow> error option \<times> session" where
  "matchTriggers s p ty path [] = (None, s)"
| "matchTriggers s p ty path (t # ts) =
     (if ttype t = ty \<and> tpath t = path then
        (case handleTrigger s p of
           (Some e, s') \<Rightarrow> (Some e, s')
         | (None, s') \<Rightarrow> matchTriggers s' p ty path ts)
      else matchTriggers s p ty path ts)"

fun checkTrigger :: "puzzle list \<Rightarrow> session \<Rightarrow> string \<Rightarrow> string \<Rightarrow> error option \<times> session" where
  "checkTrigger [] s ty path = (None, s)"
| "checkTrigger (p # puzzles) s ty path =
     (if map_of (puzzleState s) (pid p) = Some True then checkTrigger puzzles s ty path
      else
        (case matchTriggers s p ty path (triggers p) of
           (Some e, s') \<Rightarrow> (Some e, s')
         | (None, s') \<Rightarrow> checkTrigger puzzles s' ty path))"

section \<open>Sample trees and sessions\<close>

text \<open>Concrete data on which the theorems below are instantiated.\<close>

definition dirNode :: "(string \<times> node) list \<Rightarrow> node" where
  "dirNode cs = Node TDir None (Some cs) None"

definition fileNode :: "jsstring \<Rightarrow> node" where
  "fileNode c = Node TFile (Some c) None None"

definition lockedNode :: "node \<Rightarrow> node" where
  "lockedNode n = setMeta n (Some (emptyMeta\<lparr>locked := True\<rparr>))"

text \<open>\<^verbatim>\<open>/a\<close> is a locked directory; \<^verbatim>\<open>/a/b\<close> is a directory that is not locked.\<close>

definition lockTree :: node where
  "lockTree = dirNode [(''a'', lockedNode (dirNode [(''b'', dirNode [])]))]"

definition lockSession :: session where
  "lockSession = createSession ''s1'' lockTree 0 ''alice''"






text \<open>Two directories with a common child name.\<close>

definition conflictTree :: node where
  "conflictTree = dirNode
     [(''d'', dirNode [(''x'', fileNode (js ''one'')), (''y'', fileNode (js ''two''))]),
      (''e'', dirNode [(''x'', fileNode (js ''three''))])]"

definition conflictSession :: session where
  "conflictSession = createSession ''s1'' conflictTree 0 ''alice''"

text \<open>
  A puzzle bound to the decryption of \<^verbatim>\<open>/sec/secret.bin\<close> with key 42, whose success
  raises the alert by one, and a new session on the empty tree.
\<close>

definition keyPuzzle :: puzzle where
  "keyPuzzle = \<lparr>pid = ''p1'', solved = False,
     triggers = [\<lparr>ttype = ''decrypt'', tpath = ''/sec/secret.bin''\<rparr>],
     validate = ValidateString ''key:42'',
     onSuccessEffects = [RaiseAlert None], onFailEffects = [], autoSolve = False\<rparr>"

definition freshSession :: session where
  "freshSession = createSession ''s1'' (dirNode []) 0 ''alice''"

text \<open>No author code is evaluated in the samples.\<close>

definition noCode :: "string \<Rightarrow> session \<Rightarrow> string \<Rightarrow> string \<Rightarrow> bool option" where
  "noCode code s key filePath = None"



text \<open>
  A locked file in a locked directory, in a session with an empty set of unlocked paths, and a
  pattern constructor that matches by containment.
\<close>

definition vaultTree :: node where
  "vaultTree = dirNode
     [(''vault'', lockedNode (dirNode [(''secret.txt'', lockedNode (fileNode (js ''the FLAG'')))]))]"

definition vaultSession :: session where
  "vaultSession = (createSession ''s1'' vaultTree 0 ''alice'')\<lparr>unlockedPaths := Some []\<rparr>"

definition containsRx :: "string \<Rightarrow> (jsstring \<Rightarrow> bool) option" where
  "containsRx pattern = Some (\<lambda>str. includes_str str (js pattern))"

section \<open>Facts about splitting and joining\<close>
lemmas evalDefs = createSession_def accessPointPath_def Let_def resolvePath_def startsWith_def
  pathParts_def parentPathOf_def popName_def getNode_def dirNode_def fileNode_def childrenOf_def
  metaOf_def emptyMeta_def


lemma split_str_nonempty: "split_str c s \<noteq> []"
  by (induction s) (auto split: list.splits)

lemma split_str_free: "c \<notin> set s \<Longrightarrow> split_str c s = [s]"
  by (induction s) auto

lemma split_str_append: "c \<notin> set s \<Longrightarrow> split_str c (s @ c # r) = s # split_str c r"
  by (induction s) auto

lemma split_str_pieces: "w \<in> set (split_str c s) \<Longrightarrow> c \<notin> set w"
proof (induction s arbitrary: w)
  case Nil
  then show ?case by simp
next
  case (Cons x xs)
  show ?case
  proof (cases "x = c")
    case True
    with Cons show ?thesis by auto
  next
    case False
    obtain v vs where vs: "split_str c xs = v # vs"
      using split_str_nonempty [of c xs] by (cases "split_str c xs") auto
    with False Cons.prems have "w = x # v \<or> w \<in> set vs" by auto
    then show ?thesis
    proof
      assume "w = x # v"
      moreover have "c \<notin> set v" using Cons.IH [of v] vs by simp
      ultimately show ?thesis using False by auto
    next
      assume "w \<in> set vs"
      then show ?thesis using Cons.IH [of w] vs by simp
    qed
  qed
qed

lemma pathParts_pieces: "s \<in> set (pathParts p) \<Longrightarrow> s \<noteq> [] \<and> CHR ''/'' \<notin> set s"
  by (auto simp: pathParts_def dest: split_str_pieces)

lemma parts_join:
  "\<forall>s \<in> set segs. s \<noteq> [] \<and> c \<notin> set s \<Longrightarrow>
   c = CHR ''/'' \<Longrightarrow> filter (\<lambda>p. p \<noteq> []) (split_str c (join segs)) = segs"
proof (induction segs rule: join.induct)
  case 1
  then show ?case by simp
next
  case (2 s)
  then show ?case by (simp add: split_str_free)
next
  case (3 s t ts)
  then show ?case by (simp add: split_str_append)
qed

lemma pathParts_join:
  "\<forall>s \<in> set segs. s \<noteq> [] \<and> CHR ''/'' \<notin> set s \<Longrightarrow> pathParts (CHR ''/'' # join segs) = segs"
  using parts_join [of segs "CHR ''/''"] by (simp add: pathParts_def)

section \<open>Path resolution\<close>



lemma resolveStep_keeps:
  assumes "list_all plainSegment ps" and "t \<noteq> []" and "CHR ''/'' \<notin> set t"
  shows "list_all plainSegment (resolveStep ps t)"
proof -
  consider (dot) "t = ''.''" | (up) "t \<noteq> ''.''" "t = ''..''" | (push) "t \<noteq> ''.''" "t \<noteq> ''..''"
    by blast
  then show ?thesis
  proof cases
    case dot
    then show ?thesis using assms(1) unfolding resolveStep_def by simp
  next
    case up
    have "list_all plainSegment (butlast ps)"
      using assms(1) by (auto simp only: list_all_iff dest: in_set_butlastD)
    then show ?thesis using up assms(1) unfolding resolveStep_def by simp
  next
    case push
    then have "plainSegment t" using assms(2,3) unfolding plainSegment_def by blast
    moreover have "resolveStep ps t = ps @ [t]" using push unfolding resolveStep_def by simp
    ultimately show ?thesis using assms(1) by simp
  qed
qed


lemma foldl_resolveStep_keeps:
  "list_all plainSegment ps \<Longrightarrow> \<forall>t \<in> set ts. t \<noteq> [] \<and> CHR ''/'' \<notin> set t \<Longrightarrow>
   list_all plainSegment (foldl resolveStep ps ts)"
proof (induction ts arbitrary: ps)
  case Nil
  then show ?case by simp
next
  case (Cons t ts)
  have "list_all plainSegment (resolveStep ps t)"
    using Cons.prems by (intro resolveStep_keeps) simp_all
  then show ?case using Cons.IH [of "resolveStep ps t"] Cons.prems(2) by simp
qed

lemma normalized_join:
  assumes "list_all plainSegment segs"
  shows "normalized (CHR ''/'' # join segs)"
proof -
  have "\<forall>s \<in> set segs. s \<noteq> [] \<and> CHR ''/'' \<notin> set s"
    using assms unfolding list_all_iff plainSegment_def by blast
  then have "pathParts (CHR ''/'' # join segs) = segs"
    by (rule pathParts_join)
  moreover have "list_all (\<lambda>s. s \<noteq> ''.'' \<and> s \<noteq> ''..'') segs"
    using assms unfolding list_all_iff plainSegment_def by blast
  ultimately show ?thesis unfolding normalized_def by simp
qed

lemma resolvePath_relative_normalized:
  assumes "target \<noteq> []" "\<not> startsWith target ''/''"
    and "list_all (\<lambda>s. s \<noteq> ''.'' \<and> s \<noteq> ''..'') (pathParts cur)"
  shows "normalized (resolvePath cur target)"
proof -
  have c0: "list_all plainSegment (pathParts cur)"
    using assms(3) pathParts_pieces [of _ cur] unfolding list_all_iff plainSegment_def by blast
  have t0: "\<forall>t \<in> set (pathParts target). t \<noteq> [] \<and> CHR ''/'' \<notin> set t"
    using pathParts_pieces by blast
  have "normalized (CHR ''/'' # join (foldl resolveStep (pathParts cur) (pathParts target)))"
    by (rule normalized_join [OF foldl_resolveStep_keeps [OF c0 t0]])
  then show ?thesis using assms(1,2) unfolding resolvePath_def by simp
qed

lemma resolveStep_cases:
  "resolveStep parts ''.'' = parts"
  "resolveStep (parts @ [seg]) ''..'' = parts"
  "resolveStep [] ''..'' = []"
  "seg \<noteq> ''.'' \<Longrightarrow> seg \<noteq> ''..'' \<Longrightarrow> resolveStep parts seg = parts @ [seg]"
  unfolding resolveStep_def by simp_all

lemma resolvePath_rooted: "target \<noteq> [] \<Longrightarrow> startsWith (resolvePath cur target) ''/''"
  unfolding resolvePath_def startsWith_def by simp

text \<open>
  Claim C4, amended. An empty target gives the current path (the root when that is empty
  too). An absolute target is returned as it is, whatever its segments; a relative target is resolved segment by segment against the segments of the current path
  (\<^verbatim>\<open>'.'\<close> is skipped, \<^verbatim>\<open>'..'\<close> pops and does nothing on the empty stack, any other
  segment is pushed). For a non-empty target the result starts with a slash. For a relative
  target it is normalized (rooted, no empty segment, no \<^verbatim>\<open>'.'\<close> and no \<^verbatim>\<open>'..'\<close>)
  whenever the current path has no \<^verbatim>\<open>'.'\<close> or \<^verbatim>\<open>'..'\<close> segment. The two examples of
  the specification hold.
\<close>

theorem resolvePath_amended:
  "resolvePath cur [] = (if cur = [] then ''/'' else cur)
   \<and> (target \<noteq> [] \<and> startsWith target ''/'' \<longrightarrow> resolvePath cur target = target)
   \<and> (target \<noteq> [] \<and> \<not> startsWith target ''/'' \<longrightarrow>
        resolvePath cur target
          = CHR ''/'' # join (foldl resolveStep (pathParts cur) (pathParts target)))
   \<and> resolveStep parts ''.'' = parts
   \<and> resolveStep (parts @ [seg]) ''..'' = parts
   \<and> resolveStep [] ''..'' = []
   \<and> (seg \<noteq> ''.'' \<and> seg \<noteq> ''..'' \<longrightarrow> resolveStep parts seg = parts @ [seg])
   \<and> (target \<noteq> [] \<longrightarrow> startsWith (resolvePath cur target) ''/'')
   \<and> (target \<noteq> [] \<and> \<not> startsWith target ''/''
        \<and> list_all (\<lambda>s. s \<noteq> ''.'' \<and> s \<noteq> ''..'') (pathParts cur)
      \<longrightarrow> normalized (resolvePath cur target))
   \<and> resolvePath ''/a/b'' ''../c'' = ''/a/c''
   \<and> resolvePath ''/'' ''..'' = ''/''"
proof -
  have none: "resolvePath cur [] = (if cur = [] then ''/'' else cur)"
    unfolding resolvePath_def by simp
  have absolute: "target \<noteq> [] \<and> startsWith target ''/'' \<longrightarrow> resolvePath cur target = target"
    unfolding resolvePath_def by simp
  have relative: "target \<noteq> [] \<and> \<not> startsWith target ''/'' \<longrightarrow>
      resolvePath cur target
        = CHR ''/'' # join (foldl resolveStep (pathParts cur) (pathParts target))"
    unfolding resolvePath_def by simp
  have push: "seg \<noteq> ''.'' \<and> seg \<noteq> ''..'' \<longrightarrow> resolveStep parts seg = parts @ [seg]"
    using resolveStep_cases(4) by blast
  have rooted: "target \<noteq> [] \<longrightarrow> startsWith (resolvePath cur target) ''/''"
    using resolvePath_rooted by blast
  have norm: "target \<noteq> [] \<and> \<not> startsWith target ''/''
        \<and> list_all (\<lambda>s. s \<noteq> ''.'' \<and> s \<noteq> ''..'') (pathParts cur)
      \<longrightarrow> normalized (resolvePath cur target)"
    using resolvePath_relative_normalized by blast
  have e1: "resolvePath ''/a/b'' ''../c'' = ''/a/c''"
    by (simp add: resolvePath_def startsWith_def pathParts_def resolveStep_def)
  have e2: "resolvePath ''/'' ''..'' = ''/''"
    by (simp add: resolvePath_def startsWith_def pathParts_def resolveStep_def)
  show ?thesis
    using none absolute relative resolveStep_cases(1-3) push rooted norm e1 e2 by blast
qed

theorem resolvePath_amended_witness:
  "resolvePath ''/srv'' ''/a/b'' = ''/a/b''
   \<and> resolvePath ''/a/b'' ''../c'' = CHR ''/'' # join (foldl resolveStep [''a'', ''b''] [''..'', ''c''])
   \<and> resolveStep [''a''] ''b'' = [''a'', ''b'']
   \<and> startsWith (resolvePath ''/a/b'' ''../c'') ''/''
   \<and> normalized (resolvePath ''/a/b'' ''../c'')"
proof -
  note absolute = resolvePath_amended [where cur = "''/srv''" and target = "''/a/b''"
      and parts = "[''a'']" and seg = "''b''"]
  note relative = resolvePath_amended [where cur = "''/a/b''" and target = "''../c''"
      and parts = "[''a'']" and seg = "''b''"]
  have h1: "''/a/b'' \<noteq> [] \<and> startsWith ''/a/b'' ''/''"
    by (simp add: startsWith_def)
  have h2: "''../c'' \<noteq> [] \<and> \<not> startsWith ''../c'' ''/''"
    by (simp add: startsWith_def)
  have h3: "list_all (\<lambda>s. s \<noteq> ''.'' \<and> s \<noteq> ''..'') (pathParts ''/a/b'')"
    by (simp add: pathParts_def)
  have h4: "''b'' \<noteq> ''.'' \<and> ''b'' \<noteq> ''..''"
    by simp
  have p1: "pathParts ''/a/b'' = [''a'', ''b'']" and p2: "pathParts ''../c'' = [''..'', ''c'']"
    by (simp_all add: pathParts_def)
  have w1: "resolvePath ''/srv'' ''/a/b'' = ''/a/b''"
    using absolute h1 by blast
  have "resolvePath ''/a/b'' ''../c''
      = CHR ''/'' # join (foldl resolveStep (pathParts ''/a/b'') (pathParts ''../c''))"
    using relative h2 by blast
  then have w2: "resolvePath ''/a/b'' ''../c''
      = CHR ''/'' # join (foldl resolveStep [''a'', ''b''] [''..'', ''c''])"
    by (simp only: p1 p2)
  have w3: "resolveStep [''a''] ''b'' = [''a'', ''b'']"
    using relative h4 by (simp only: append.simps) blast
  have w4: "startsWith (resolvePath ''/a/b'' ''../c'') ''/''"
    using relative h2 by blast
  have w5: "normalized (resolvePath ''/a/b'' ''../c'')"
    using relative h2 h3 by blast
  show ?thesis using w1 w2 w3 w4 w5 by blast
qed

text \<open>
  Claim C4 as stated fails: an absolute target is passed through with its \<^verbatim>\<open>'..'\<close>
  segment.
\<close>

theorem resolvePath_counterexample:
  "resolvePath ''/'' ''/a/../b'' = ''/a/../b''
   \<and> ''..'' \<in> set (pathParts (resolvePath ''/'' ''/a/../b''))
   \<and> \<not> normalized (resolvePath ''/'' ''/a/../b'')"
  by (simp add: resolvePath_def startsWith_def pathParts_def normalized_def)

section \<open>Locks and unlocked paths\<close>
lemma root_member_unlocks:
  assumes "unlockedPaths s = Some unl" "''/'' \<in> set unl" "startsWith path ''/''"
  shows "isPathUnlocked s path"
proof -
  have "list_ex (\<lambda>unlocked. startsWith path unlocked) unl"
    unfolding list_ex_iff using assms(2,3) by blast
  then show ?thesis using assms(1) unfolding isPathUnlocked_def by (simp add: Let_def)
qed

lemma createSession_root: "\<exists>unl. unlockedPaths (createSession i seed u n) = Some unl \<and> ''/'' \<in> set unl"
  unfolding createSession_def by (simp add: Let_def)

lemma list_dir_denied_iff:
  assumes "isPathUnlocked s (resolvePath (currentPath s) path)"
  shows "list_dir s path = Inl PermissionDenied \<longleftrightarrow>
    (case getNode (fs s) (resolvePath (currentPath s) path) of None \<Rightarrow> False
     | Some node \<Rightarrow> ntype node = TDir \<and> isLocked node)"
  using assms unfolding list_dir_def by (simp add: Let_def split: option.splits)

lemma readFile_denied_iff:
  assumes "isPathUnlocked s (resolvePath (currentPath s) path)"
  shows "readFile s path = Inl PermissionDenied \<longleftrightarrow>
    (case getNode (fs s) (resolvePath (currentPath s) path) of None \<Rightarrow> False
     | Some node \<Rightarrow> ntype node = TFile \<and> isLocked node)"
  using assms unfolding readFile_def by (simp add: Let_def split: option.splits)

lemma locked_dir_denied:
  assumes "getNode (fs s) (resolvePath (currentPath s) path) = Some d" "ntype d = TDir" "isLocked d"
  shows "list_dir s path = Inl PermissionDenied"
  using assms unfolding list_dir_def by (simp add: Let_def)

lemma map_of_update_same: "map_of (AList.update k v al) k = Some v"
  by (simp add: update_conv')

lemma walk_modifyAt: "walk (modifyAt ps f n) ps = map_option f (walk n ps)"
proof (induction ps arbitrary: n)
  case Nil
  then show ?case by simp
next
  case (Cons p ps)
  show ?case
  proof (cases "children n")
    case None
    then show ?thesis by simp
  next
    case (Some cs)
    show ?thesis
    proof (cases "map_of cs p")
      case None
      then show ?thesis using Some by simp
    next
      case (Some c)
      then show ?thesis using \<open>children n = Some cs\<close> Cons.IH [of c]
        by (simp add: setChildren_def map_of_update_same)
    qed
  qed
qed

lemma getNode_walk: "getNode root path = walk root (pathParts path)"
  unfolding getNode_def by (simp add: pathParts_def)

lemma setLock_then_list:
  assumes "getNode (fs s) (resolvePath (currentPath s) path) = Some d" "ntype d = TDir"
  shows "list_dir (snd (setLock s path True)) path = Inl PermissionDenied"
proof -
  let ?r = "resolvePath (currentPath s) path"
  let ?f = "\<lambda>n. setMeta n (Some ((metaOf n)\<lparr>locked := True\<rparr>))"
  let ?s' = "snd (setLock s path True)"
  have s': "?s' = s\<lparr>fs := modifyAt (pathParts ?r) ?f (fs s)\<rparr>"
    using assms(1) unfolding setLock_def by (simp add: Let_def)
  have "getNode (fs ?s') ?r = Some (?f d)"
    using assms(1) unfolding s' getNode_walk by (simp add: walk_modifyAt)
  moreover have "currentPath ?s' = currentPath s" unfolding s' by simp
  moreover have "ntype (?f d) = TDir" using assms(2) by (simp add: setMeta_def)
  moreover have "isLocked (?f d)" by (simp add: isLocked_def metaOf_def setMeta_def)
  ultimately show ?thesis using locked_dir_denied [of ?s' path "?f d"] by simp
qed


lemma changeDirectory_denied_iff:
  assumes "isPathUnlocked s (resolvePath (currentPath s) path)"
  shows "fst (changeDirectory s path) = Inl PermissionDenied \<longleftrightarrow>
    (case getNode (fs s) (resolvePath (currentPath s) path) of None \<Rightarrow> False
     | Some node \<Rightarrow> ntype node = TDir \<and> isLocked node)"
  using assms unfolding changeDirectory_def by (simp add: Let_def split: option.splits)

text \<open>
  Claim C3. With the root path among the unlocked paths, as in every session that
  \<open>createSession\<close> builds, \<open>isPathUnlocked\<close> holds of every path that starts with a slash;
  so \<open>list\<close>, \<open>readFile\<close> and \<open>changeDirectory\<close> deny permission on such a path exactly
  when the node there is of the right type and carries the \<open>locked\<close> flag.
\<close>

theorem root_unlocked_allows_every_absolute_path:
  assumes "startsWith path ''/''"
  shows "(unlockedPaths s = Some unl \<and> ''/'' \<in> set unl \<longrightarrow> isPathUnlocked s path)
    \<and> isPathUnlocked (createSession i seed u n) path
    \<and> (unlockedPaths s = Some unl \<and> ''/'' \<in> set unl \<and> resolvePath (currentPath s) p = path \<longrightarrow>
         (list_dir s p = Inl PermissionDenied \<longleftrightarrow>
            (case getNode (fs s) path of None \<Rightarrow> False
             | Some node \<Rightarrow> ntype node = TDir \<and> isLocked node))
       \<and> (readFile s p = Inl PermissionDenied \<longleftrightarrow>
            (case getNode (fs s) path of None \<Rightarrow> False
             | Some node \<Rightarrow> ntype node = TFile \<and> isLocked node))
       \<and> (fst (changeDirectory s p) = Inl PermissionDenied \<longleftrightarrow>
            (case getNode (fs s) path of None \<Rightarrow> False
             | Some node \<Rightarrow> ntype node = TDir \<and> isLocked node)))"
proof -
  have member: "unlockedPaths s = Some unl \<and> ''/'' \<in> set unl \<longrightarrow> isPathUnlocked s path"
    using root_member_unlocks assms by blast
  have created: "isPathUnlocked (createSession i seed u n) path"
    using createSession_root [of i seed u n] root_member_unlocks assms by blast
  have ops: "unlockedPaths s = Some unl \<and> ''/'' \<in> set unl \<and> resolvePath (currentPath s) p = path \<longrightarrow>
         (list_dir s p = Inl PermissionDenied \<longleftrightarrow>
            (case getNode (fs s) path of None \<Rightarrow> False
             | Some node \<Rightarrow> ntype node = TDir \<and> isLocked node))
       \<and> (readFile s p = Inl PermissionDenied \<longleftrightarrow>
            (case getNode (fs s) path of None \<Rightarrow> False
             | Some node \<Rightarrow> ntype node = TFile \<and> isLocked node))
       \<and> (fst (changeDirectory s p) = Inl PermissionDenied \<longleftrightarrow>
            (case getNode (fs s) path of None \<Rightarrow> False
             | Some node \<Rightarrow> ntype node = TDir \<and> isLocked node))"
  proof (intro impI)
    assume h: "unlockedPaths s = Some unl \<and> ''/'' \<in> set unl \<and> resolvePath (currentPath s) p = path"
    then have "isPathUnlocked s (resolvePath (currentPath s) p)"
      using member by simp
    then show "(list_dir s p = Inl PermissionDenied \<longleftrightarrow>
            (case getNode (fs s) path of None \<Rightarrow> False
             | Some node \<Rightarrow> ntype node = TDir \<and> isLocked node))
       \<and> (readFile s p = Inl PermissionDenied \<longleftrightarrow>
            (case getNode (fs s) path of None \<Rightarrow> False
             | Some node \<Rightarrow> ntype node = TFile \<and> isLocked node))
       \<and> (fst (changeDirectory s p) = Inl PermissionDenied \<longleftrightarrow>
            (case getNode (fs s) path of None \<Rightarrow> False
             | Some node \<Rightarrow> ntype node = TDir \<and> isLocked node))"
      using list_dir_denied_iff [of s p] readFile_denied_iff [of s p]
        changeDirectory_denied_iff [of s p] h by simp
  qed
  show ?thesis using member created ops by blast
qed

theorem root_unlocked_allows_every_absolute_path_witness:
  "isPathUnlocked lockSession ''/a/b''
   \<and> isPathUnlocked (createSession ''s2'' lockTree 5 ''bob'') ''/a/b''
   \<and> list_dir lockSession ''/a/b'' \<noteq> Inl PermissionDenied
   \<and> list_dir lockSession ''/a'' = Inl PermissionDenied"
proof -
  have h: "startsWith ''/a/b'' ''/''" "startsWith ''/a'' ''/''"
    by (simp_all add: startsWith_def)
  have u: "unlockedPaths lockSession = Some [''/'', ''/server_room'', ''/server_room/access_point_1'']"
    by (simp add: lockSession_def createSession_def accessPointPath_def Let_def)
  have r: "resolvePath (currentPath lockSession) ''/a/b'' = ''/a/b''"
    "resolvePath (currentPath lockSession) ''/a'' = ''/a''"
    by (simp_all add: resolvePath_def startsWith_def)
  have g: "getNode (fs lockSession) ''/a/b'' = Some (dirNode [])"
    "getNode (fs lockSession) ''/a'' = Some (lockedNode (dirNode [(''b'', dirNode [])]))"
    by (simp_all add: lockSession_def createSession_def Let_def lockTree_def getNode_def
        pathParts_def dirNode_def lockedNode_def setMeta_def)
  have l: "\<not> isLocked (dirNode [])" "isLocked (lockedNode (dirNode [(''b'', dirNode [])]))"
    "ntype (lockedNode (dirNode [(''b'', dirNode [])])) = TDir"
    by (simp_all add: isLocked_def metaOf_def dirNode_def lockedNode_def setMeta_def emptyMeta_def)
  show ?thesis
    using root_unlocked_allows_every_absolute_path [OF h(1), of lockSession
        "[''/'', ''/server_room'', ''/server_room/access_point_1'']" "''s2''" lockTree 5 "''bob''" "''/a/b''"]
      root_unlocked_allows_every_absolute_path [OF h(2), of lockSession
        "[''/'', ''/server_room'', ''/server_room/access_point_1'']" "''s2''" lockTree 5 "''bob''" "''/a''"]
      u r g l
    by simp
qed

text \<open>
  Claim C2, amended. \<open>list\<close> fails with permission-denied on the path of a directory whose
  \<open>locked\<close> flag is set, and on the path of any directory right after \<open>setLock\<close> has locked
  it, whatever the unlocked paths of the session are. (The flag is read on the listed node
  only: a descendant of a locked directory is listed or refused by its own flag.)
\<close>

theorem locked_directory_list_denied:
  assumes "getNode (fs s) (resolvePath (currentPath s) path) = Some d" and "ntype d = TDir"
  shows "(isLocked d \<longrightarrow> list_dir s path = Inl PermissionDenied)
    \<and> list_dir (snd (setLock s path True)) path = Inl PermissionDenied"
  using locked_dir_denied [OF assms] setLock_then_list [OF assms] by blast

theorem locked_directory_list_denied_witness:
  "list_dir lockSession ''/a'' = Inl PermissionDenied
   \<and> list_dir (snd (setLock lockSession ''/a/b'' True)) ''/a/b'' = Inl PermissionDenied"
proof -
  have r: "resolvePath (currentPath lockSession) ''/a/b'' = ''/a/b''"
    "resolvePath (currentPath lockSession) ''/a'' = ''/a''"
    by (simp_all add: resolvePath_def startsWith_def)
  have g: "getNode (fs lockSession) ''/a/b'' = Some (dirNode [])"
    "getNode (fs lockSession) ''/a'' = Some (lockedNode (dirNode [(''b'', dirNode [])]))"
    by (simp_all add: lockSession_def createSession_def Let_def lockTree_def getNode_def
        pathParts_def dirNode_def lockedNode_def setMeta_def)
  have l: "ntype (dirNode []) = TDir" "isLocked (lockedNode (dirNode [(''b'', dirNode [])]))"
    "ntype (lockedNode (dirNode [(''b'', dirNode [])])) = TDir"
    by (simp_all add: isLocked_def metaOf_def dirNode_def lockedNode_def setMeta_def emptyMeta_def)
  show ?thesis
    using locked_directory_list_denied [of lockSession "''/a''" "lockedNode (dirNode [(''b'', dirNode [])])"]
      locked_directory_list_denied [of lockSession "''/a/b''" "dirNode []"] r g l
    by simp
qed

text \<open>
  Claim C2 as stated fails on a descendant: \<^verbatim>\<open>/a\<close> is a locked directory, and \<open>list\<close>
  on \<^verbatim>\<open>/a/b\<close> succeeds.
\<close>

theorem locked_directory_descendant_counterexample:
  "map_option ntype (getNode (fs lockSession) ''/a'') = Some TDir
   \<and> map_option isLocked (getNode (fs lockSession) ''/a'') = Some True
   \<and> list_dir lockSession ''/a/b'' = Inr []"
  by (simp add: lockSession_def createSession_def Let_def lockTree_def getNode_def
      pathParts_def dirNode_def lockedNode_def setMeta_def isLocked_def metaOf_def emptyMeta_def
      list_dir_def resolvePath_def startsWith_def isPathUnlocked_def accessPointPath_def)

section \<open>Deleting a security file\<close>






















section \<open>Conflicts of rename and move\<close>

lemma rename_conflict:
  assumes "getNode (fs s) (parentPathOf (pathParts (resolvePath (currentPath s) path))) = Some parent"
    and "ntype parent = TDir"
    and "map_of (childrenOf parent) (popName (pathParts (resolvePath (currentPath s) path))) = Some src"
    and "map_of (childrenOf parent) newName = Some other"
  shows "rename s path newName = (Inl AlreadyExists, s)"
  using assms unfolding rename_def by (simp add: Let_def)

lemma move_conflict:
  assumes "getNode (fs s) (resolvePath (currentPath s) sourcePath) = Some src"
    and "getNode (fs s) (resolvePath (currentPath s) targetPath) = Some tgt"
    and "ntype tgt = TDir"
    and "map_of (childrenOf tgt) (popName (pathParts (resolvePath (currentPath s) sourcePath))) = Some other"
  shows "move s sourcePath targetPath = (Inl AlreadyExistsInTarget, s)"
  using assms unfolding move_def by (simp add: Let_def)

text \<open>
  Claim C9. When the source exists in its parent directory and the parent already has a child
  called \<open>newName\<close>, \<open>rename\<close> fails with the already-exists error; when the source
  exists and the target directory already has a child with the last segment of the source
  path as its name, \<open>move\<close> fails with the already-exists-in-target error. In both cases
  the session, and with it the tree, is returned as it was.
\<close>

theorem rename_move_conflict_unchanged:
  "(getNode (fs s) (parentPathOf (pathParts (resolvePath (currentPath s) path))) = Some parent
      \<and> ntype parent = TDir
      \<and> map_of (childrenOf parent) (popName (pathParts (resolvePath (currentPath s) path))) = Some src
      \<and> map_of (childrenOf parent) newName = Some other
    \<longrightarrow> rename s path newName = (Inl AlreadyExists, s))
   \<and> (getNode (fs s) (resolvePath (currentPath s) sourcePath) = Some src'
      \<and> getNode (fs s) (resolvePath (currentPath s) targetPath) = Some tgt
      \<and> ntype tgt = TDir
      \<and> map_of (childrenOf tgt) (popName (pathParts (resolvePath (currentPath s) sourcePath))) = Some other'
    \<longrightarrow> move s sourcePath targetPath = (Inl AlreadyExistsInTarget, s))"
  using rename_conflict [of s path parent src newName other]
    move_conflict [of s sourcePath src' targetPath tgt other']
  by blast

theorem rename_move_conflict_unchanged_witness:
  "rename conflictSession ''/d/x'' ''y'' = (Inl AlreadyExists, conflictSession)
   \<and> move conflictSession ''/d/x'' ''/e'' = (Inl AlreadyExistsInTarget, conflictSession)
   \<and> fst (rename conflictSession ''/d/x'' ''z'') = Inr ''/d/z''
   \<and> fst (move conflictSession ''/d/y'' ''/e'') = Inr ''/e/y''"
proof -
  let ?x = "fileNode (js ''one'')"
  let ?d = "dirNode [(''x'', fileNode (js ''one'')), (''y'', fileNode (js ''two''))]"
  let ?e = "dirNode [(''x'', fileNode (js ''three''))]"
  have c: "currentPath conflictSession = ''/server_room/access_point_1''"
    "fs conflictSession = conflictTree"
    by (simp_all add: conflictSession_def createSession_def accessPointPath_def Let_def)
  have r: "resolvePath (currentPath conflictSession) ''/d/x'' = ''/d/x''"
    "resolvePath (currentPath conflictSession) ''/e'' = ''/e''"
    by (simp_all add: resolvePath_def startsWith_def)
  have pp: "parentPathOf (pathParts ''/d/x'') = ''/d''" "popName (pathParts ''/d/x'') = ''x''"
    by (simp_all add: parentPathOf_def popName_def pathParts_def)
  have g: "getNode conflictTree ''/d'' = Some ?d" "getNode conflictTree ''/e'' = Some ?e"
    "getNode conflictTree ''/d/x'' = Some ?x"
    by (simp_all add: conflictTree_def getNode_def pathParts_def dirNode_def)
  have k: "ntype ?d = TDir" "ntype ?e = TDir"
    "map_of (childrenOf ?d) ''x'' = Some ?x"
    "map_of (childrenOf ?d) ''y'' = Some (fileNode (js ''two''))"
    "map_of (childrenOf ?e) ''x'' = Some (fileNode (js ''three''))"
    by (simp_all add: dirNode_def childrenOf_def)
  note t = rename_move_conflict_unchanged [of conflictSession "''/d/x''" ?d ?x "''y''"
      "fileNode (js ''two'')" "''/d/x''" ?x "''/e''" ?e "fileNode (js ''three'')"]
  have w1: "rename conflictSession ''/d/x'' ''y'' = (Inl AlreadyExists, conflictSession)"
    using t c r pp g k by simp
  have w2: "move conflictSession ''/d/x'' ''/e'' = (Inl AlreadyExistsInTarget, conflictSession)"
    using t c r pp g k by simp
  have w3: "fst (rename conflictSession ''/d/x'' ''z'') = Inr ''/d/z''"
    by (simp add: rename_def conflictSession_def conflictTree_def childPath_def evalDefs)
  have w4: "fst (move conflictSession ''/d/y'' ''/e'') = Inr ''/e/y''"
    by (simp add: move_def conflictSession_def conflictTree_def childPath_def evalDefs)
  show ?thesis using w1 w2 w3 w4 by blast
qed

section \<open>The security AI: level and alarm\<close>

lemma trigger_suspicious_ten:
  assumes "trigger st SuspiciousCommand rnd = (resp, st')" and "level st' = 10"
  shows "status st' = Alarm \<and> resp = Some \<lparr>message = LockdownMessage, shouldLogout = True\<rparr>"
  using assms unfolding trigger_def by (auto simp: Let_def split: if_splits)

lemma trigger_escalate:
  "status (snd (trigger st AdminEscalate rnd)) = Alarm
   \<and> map_option shouldLogout (fst (trigger st AdminEscalate rnd)) = Some False"
  unfolding trigger_def by simp

lemma trigger_failed:
  "map_option shouldLogout (fst (trigger st FailedPuzzle rnd)) = Some False"
  unfolding trigger_def by (simp add: Let_def)

lemma failed_puzzle_status:
  "status (snd (trigger st FailedPuzzle rnd))
     = (if 5 \<le> min (level st + 1) 10 \<and> status st = Probing then Alarm else status st)"
  unfolding trigger_def by (simp add: Let_def)

text \<open>
  Claim C5, amended. After any sequence of events, a \<open>suspicious_command\<close> event that
  leaves the level at 10 leaves the status \<open>alarm\<close> and returns the lockdown message with
  the disconnect signal. An \<open>admin_escalate\<close> event leaves the status \<open>alarm\<close> at any
  level, and neither it nor \<open>failed_puzzle\<close> returns the disconnect signal. A
  \<open>failed_puzzle\<close> event changes the status only from \<open>probing\<close> to \<open>alarm\<close>, and
  only when the new level is 5 or more; otherwise the status stays what it was.
\<close>

theorem suspicious_command_at_ten_disconnects:
  "(trigger (runEvents st0 evs) SuspiciousCommand rnd = (resp, st') \<and> level st' = 10
      \<longrightarrow> status st' = Alarm
          \<and> resp = Some \<lparr>message = LockdownMessage, shouldLogout = True\<rparr>)
   \<and> status (snd (trigger (runEvents st0 evs) AdminEscalate rnd)) = Alarm
   \<and> map_option shouldLogout (fst (trigger (runEvents st0 evs) AdminEscalate rnd)) = Some False
   \<and> map_option shouldLogout (fst (trigger (runEvents st0 evs) FailedPuzzle rnd)) = Some False
   \<and> status (snd (trigger (runEvents st0 evs) FailedPuzzle rnd))
       = (if 5 \<le> min (level (runEvents st0 evs) + 1) 10 \<and> status (runEvents st0 evs) = Probing
          then Alarm else status (runEvents st0 evs))"
  using trigger_suspicious_ten [of "runEvents st0 evs" rnd resp st']
    trigger_escalate [of "runEvents st0 evs" rnd] trigger_failed [of "runEvents st0 evs" rnd]
    failed_puzzle_status [of "runEvents st0 evs" rnd]
  by blast

theorem suspicious_command_at_ten_disconnects_witness:
  "status (snd (trigger (runEvents initialAI (replicate 4 (SuspiciousCommand, 3))) SuspiciousCommand 3))
     = Alarm
   \<and> fst (trigger (runEvents initialAI (replicate 4 (SuspiciousCommand, 3))) SuspiciousCommand 3)
     = Some \<lparr>message = LockdownMessage, shouldLogout = True\<rparr>"
proof -
  let ?st = "runEvents initialAI (replicate 4 (SuspiciousCommand, 3))"
  have e: "?st = \<lparr>level = 8, status = Alarm, challenge = None\<rparr>"
    by (simp add: runEvents_def initialAI_def trigger_def Let_def numeral_eq_Suc)
  have l: "level (snd (trigger ?st SuspiciousCommand 3)) = 10"
    unfolding e by (simp add: trigger_def Let_def)
  have p: "trigger ?st SuspiciousCommand 3
      = (fst (trigger ?st SuspiciousCommand 3), snd (trigger ?st SuspiciousCommand 3))"
    by simp
  show ?thesis
    using suspicious_command_at_ten_disconnects [of initialAI "replicate 4 (SuspiciousCommand, 3)" 3
        "fst (trigger ?st SuspiciousCommand 3)" "snd (trigger ?st SuspiciousCommand 3)"] l p
    by blast
qed

text \<open>
  Claim C5 as stated fails: ten \<open>failed_puzzle\<close> events on a new session bring the level
  to 10 with the status still \<open>idle\<close> and no disconnect signal.
\<close>

theorem level_ten_without_alarm_counterexample:
  "trigger (runEvents initialAI (replicate 9 (FailedPuzzle, 0))) FailedPuzzle 0
     = (Some \<lparr>message = FailedAuthMessage, shouldLogout = False\<rparr>,
        \<lparr>level = 10, status = Idle, challenge = None\<rparr>)"
  by (simp add: runEvents_def initialAI_def trigger_def Let_def numeral_eq_Suc)

lemma trigger_level_bounds:
  assumes "0 \<le> level st" and "level st \<le> 10"
  shows "0 \<le> level (snd (trigger st ev rnd)) \<and> level (snd (trigger st ev rnd)) \<le> 10"
  using assms unfolding trigger_def by (cases ev) (auto simp: Let_def)

lemma validateChallenge_level_bounds:
  assumes "0 \<le> level st" and "level st \<le> 10"
  shows "0 \<le> level (snd (validateChallenge st ans)) \<and> level (snd (validateChallenge st ans)) \<le> 10"
  using assms unfolding validateChallenge_def by (auto simp: Let_def split: option.splits)

lemma setState_level_bounds:
  "0 \<le> level (setState st lvl x) \<and> level (setState st lvl x) \<le> 10"
  unfolding setState_def by simp

lemma runEvents_level_bounds:
  "0 \<le> level st \<Longrightarrow> level st \<le> 10 \<Longrightarrow>
   0 \<le> level (runEvents st evs) \<and> level (runEvents st evs) \<le> 10"
  unfolding runEvents_def
proof (induction evs arbitrary: st)
  case Nil
  then show ?case by simp
next
  case (Cons e evs)
  obtain ev rnd where e: "e = (ev, rnd)" by (cases e)
  have "0 \<le> level (snd (trigger st ev rnd)) \<and> level (snd (trigger st ev rnd)) \<le> 10"
    using Cons.prems by (rule trigger_level_bounds)
  then show ?case using Cons.IH [of "snd (trigger st ev rnd)"] e by simp
qed

lemma raiseAlert_level_upper:
  "aiState (snd (executeEffect s (RaiseAlert lvl))) = Some st \<Longrightarrow> level st \<le> 10"
  unfolding executeEffect_def by (auto simp: Let_def split: if_splits)

text \<open>
  For claim C6: the \<open>raiseAlert\<close> effect caps the level at 10 but has no floor. With the
  amount \<open>-3\<close> on a new session the level becomes \<open>-3\<close>.
\<close>

theorem raiseAlert_negative_level:
  "map_option level (aiState (snd (executeEffect freshSession (RaiseAlert (Some (- 3)))))) = Some (- 3)"
  by (simp add: executeEffect_def freshSession_def createSession_def initialAI_def Let_def)

section \<open>Solved puzzles and decryption\<close>

text \<open>
  For claim C8: \<open>checkDecrypt\<close> tests the \<open>solved\<close> property of the puzzle definition, not
  the puzzle state of the session. A first decryption with the right key solves the puzzle
  and raises the level to 1; a second one at the same path validates again and runs the
  success effects again, so the level is 2. \<open>checkTrigger\<close> on the solved session does
  skip the puzzle.
\<close>

theorem checkDecrypt_reruns_solved_puzzle:
  "map_of (puzzleState (snd (checkDecrypt noCode [keyPuzzle] freshSession ''/sec/secret.bin'' ''42'')))
       ''p1'' = Some True
   \<and> map_option level
       (aiState (snd (checkDecrypt noCode [keyPuzzle] freshSession ''/sec/secret.bin'' ''42'')))
     = Some 1
   \<and> map_option level
       (aiState (snd (checkDecrypt noCode [keyPuzzle]
          (snd (checkDecrypt noCode [keyPuzzle] freshSession ''/sec/secret.bin'' ''42''))
          ''/sec/secret.bin'' ''42'')))
     = Some 2
   \<and> checkTrigger [keyPuzzle\<lparr>autoSolve := True\<rparr>]
        (snd (checkDecrypt noCode [keyPuzzle] freshSession ''/sec/secret.bin'' ''42''))
        ''decrypt'' ''/sec/secret.bin''
     = (None, snd (checkDecrypt noCode [keyPuzzle] freshSession ''/sec/secret.bin'' ''42''))"
proof -
  have v: "validateSolution noCode s keyPuzzle ''42'' ''/sec/secret.bin''" for s
    by (simp add: validateSolution_def keyPuzzle_def startsWith_def trim_def isSpace_def)
  have one: "snd (checkDecrypt noCode [keyPuzzle] freshSession ''/sec/secret.bin'' ''42'')
      = freshSession\<lparr>puzzleState := [(''p1'', True)],
          aiState := Some \<lparr>level = 1, status = Probing, challenge = None\<rparr>\<rparr>"
    using v [of freshSession]
    by (simp add: keyPuzzle_def onSuccess_def executeEffect_def freshSession_def createSession_def
        initialAI_def Let_def)
  have two: "map_option level (aiState (snd (checkDecrypt noCode [keyPuzzle]
        (freshSession\<lparr>puzzleState := [(''p1'', True)],
          aiState := Some \<lparr>level = 1, status = Probing, challenge = None\<rparr>\<rparr>)
        ''/sec/secret.bin'' ''42''))) = Some 2"
    using v [of "freshSession\<lparr>puzzleState := [(''p1'', True)],
          aiState := Some \<lparr>level = 1, status = Probing, challenge = None\<rparr>\<rparr>"]
    by (simp add: keyPuzzle_def onSuccess_def executeEffect_def Let_def)
  have three: "checkTrigger [keyPuzzle\<lparr>autoSolve := True\<rparr>]
        (freshSession\<lparr>puzzleState := [(''p1'', True)],
          aiState := Some \<lparr>level = 1, status = Probing, challenge = None\<rparr>\<rparr>)
        ''decrypt'' ''/sec/secret.bin''
      = (None, freshSession\<lparr>puzzleState := [(''p1'', True)],
          aiState := Some \<lparr>level = 1, status = Probing, challenge = None\<rparr>\<rparr>)"
    by (simp add: keyPuzzle_def)
  show ?thesis unfolding one using two three by simp
qed

section \<open>Decryption\<close>














lemma xor_differs:
  assumes "(k :: int) \<noteq> k'"
  shows "(a XOR k) XOR k' \<noteq> a"
proof
  assume e: "(a XOR k) XOR k' = a"
  have "k' = (a XOR k) XOR ((a XOR k) XOR k')"
    by (simp add: xor.assoc [symmetric])
  also have "\<dots> = (a XOR k) XOR a" by (simp only: e)
  also have "\<dots> = k" by (simp add: xor.commute xor.left_commute)
  finally show False using assms by simp
qed

lemma word16_of_byte_inj:
  assumes "0 \<le> x" "x < 256" "0 \<le> y" "y < 256" "x \<noteq> y"
  shows "(word_of_int x :: 16 word) \<noteq> word_of_int y"
proof
  assume "(word_of_int x :: 16 word) = word_of_int y"
  then have "take_bit 16 x = take_bit 16 y"
    by (simp add: word_of_int_eq_iff)
  moreover have "take_bit 16 x = x" "take_bit 16 y = y"
    using assms by (simp_all add: take_bit_int_eq_self)
  ultimately show False using assms(5) by simp
qed














section \<open>Search\<close>



lemma searchNode_stripMeta: "searchNode test (stripMeta n) path = searchNode test n path"
proof (induction test n path rule: searchNode.induct)
  case (1 test t cont ch m path)
  show ?case
  proof (cases "t = TDir")
    case False
    then show ?thesis by simp
  next
    case True
    show ?thesis
    proof (cases ch)
      case None
      then show ?thesis using True by simp
    next
      case (Some cs)
      have eq: "map ((\<lambda>(nm, child). searchNode test child (childPath path nm))
                    \<circ> (\<lambda>(nm, child). (nm, stripMeta child))) cs
          = map (\<lambda>(nm, child). searchNode test child (childPath path nm)) cs"
      proof (intro map_cong refl)
        fix x assume x: "x \<in> set cs"
        obtain nm child where xx: "x = (nm, child)" by (cases x)
        have nf: "t \<noteq> TFile" using True by simp
        have "searchNode test (stripMeta child) (childPath path nm)
            = searchNode test child (childPath path nm)"
          by (rule "1.IH" [OF nf True Some x xx [symmetric]])
        then show "((\<lambda>(nm, child). searchNode test child (childPath path nm))
              \<circ> (\<lambda>(nm, child). (nm, stripMeta child))) x
            = (case x of (nm, child) \<Rightarrow> searchNode test child (childPath path nm))"
          using xx by simp
      qed
      have "searchNode test (stripMeta (Node t cont ch m)) path
          = concat (map ((\<lambda>(nm, child). searchNode test child (childPath path nm))
                    \<circ> (\<lambda>(nm, child). (nm, stripMeta child))) cs)"
        using True Some by simp
      also have "\<dots> = concat (map (\<lambda>(nm, child). searchNode test child (childPath path nm)) cs)"
        by (simp only: eq)
      also have "\<dots> = searchNode test (Node t cont ch m) path"
        using True Some by simp
      finally show ?thesis .
    qed
  qed
qed

lemma searchNode_finds:
  assumes "walkDirs n names = Some f" and "ntype f = TFile"
    and "test (js (pathFrom path names)) \<or> test (case contents f of None \<Rightarrow> [] | Some c \<Rightarrow> c)"
  shows "\<lparr>rpath = pathFrom path names, rtype = TFile,
           rmatch = (if test (js (pathFrom path names)) then Filename else Content)\<rparr>
         \<in> set (searchNode test n path)"
  using assms
proof (induction names arbitrary: n path)
  case Nil
  then have "n = f" by simp
  then show ?case using Nil.prems(2,3) by (cases f) (auto simp: Let_def)
next
  case (Cons nm names)
  have dir: "ntype n = TDir" using Cons.prems(1) by (simp split: if_splits)
  then obtain child where c: "map_of (childrenOf n) nm = Some child"
    and w: "walkDirs child names = Some f"
    using Cons.prems(1) by (auto split: option.splits)
  have mem: "(nm, child) \<in> set (childrenOf n)" using c by (rule map_of_SomeD)
  have "\<lparr>rpath = pathFrom (childPath path nm) names, rtype = TFile,
           rmatch = (if test (js (pathFrom (childPath path nm) names)) then Filename else Content)\<rparr>
         \<in> set (searchNode test child (childPath path nm))"
    using Cons.IH [OF w Cons.prems(2), of "childPath path nm"] Cons.prems(3) by simp
  moreover have "set (searchNode test child (childPath path nm)) \<subseteq> set (searchNode test n path)"
  proof (cases n)
    case (Node t cont ch m)
    then obtain cs where cs: "ch = Some cs" and m2: "(nm, child) \<in> set cs"
      using mem c by (cases ch) (simp_all add: childrenOf_def)
    have t: "t = TDir" using dir Node by simp
    have "searchNode test n path
        = concat (map (\<lambda>(nm, child). searchNode test child (childPath path nm)) cs)"
      unfolding Node using t cs by simp
    then show ?thesis using m2 by (auto intro!: bexI [of _ "(nm, child)"])
  qed
  ultimately show ?case by auto
qed


text \<open>
  Claim C10. When the pattern compiles, \<open>search\<close> returns an entry for every file of the
  tree (reached from the root through directories) whose path or contents the pattern
  matches, with the path the file has and the kind of the match. Nothing in the statement
  restricts the \<open>locked\<close> flags on the way or the unlocked paths of the session, and the
  result is the same on the tree with all metadata removed and any other set of unlocked
  paths.
\<close>

theorem search_ignores_locks:
  assumes "regExp pattern = Some test"
  shows "(walkDirs (fs s) names = Some f \<and> ntype f = TFile
        \<and> (test (js (pathFrom ''/'' names)) \<or> test (case contents f of None \<Rightarrow> [] | Some c \<Rightarrow> c))
      \<longrightarrow> (\<exists>rs. search regExp s pattern = Inr rs
            \<and> \<lparr>rpath = pathFrom ''/'' names, rtype = TFile,
                 rmatch = (if test (js (pathFrom ''/'' names)) then Filename else Content)\<rparr>
               \<in> set rs))
    \<and> search regExp (s\<lparr>fs := stripMeta (fs s), unlockedPaths := u\<rparr>) pattern
        = search regExp s pattern"
proof (intro conjI impI)
  assume h: "walkDirs (fs s) names = Some f \<and> ntype f = TFile
        \<and> (test (js (pathFrom ''/'' names)) \<or> test (case contents f of None \<Rightarrow> [] | Some c \<Rightarrow> c))"
  have "\<lparr>rpath = pathFrom ''/'' names, rtype = TFile,
          rmatch = (if test (js (pathFrom ''/'' names)) then Filename else Content)\<rparr>
        \<in> set (searchNode test (fs s) ''/'')"
    using searchNode_finds [of "fs s" names f test "''/''"] h by blast
  then show "\<exists>rs. search regExp s pattern = Inr rs
            \<and> \<lparr>rpath = pathFrom ''/'' names, rtype = TFile,
                 rmatch = (if test (js (pathFrom ''/'' names)) then Filename else Content)\<rparr>
               \<in> set rs"
    unfolding search_def using assms by simp
next
  show "search regExp (s\<lparr>fs := stripMeta (fs s), unlockedPaths := u\<rparr>) pattern
        = search regExp s pattern"
    unfolding search_def using assms by (simp add: searchNode_stripMeta)
qed

theorem search_ignores_locks_witness:
  "(\<exists>rs. search containsRx vaultSession ''FLAG'' = Inr rs
      \<and> \<lparr>rpath = ''/vault/secret.txt'', rtype = TFile, rmatch = Content\<rparr> \<in> set rs)
   \<and> readFile vaultSession ''/vault/secret.txt'' = Inl PermissionDenied
   \<and> list_dir vaultSession ''/vault'' = Inl PermissionDenied"
proof -
  let ?test = "\<lambda>str. includes_str str (js ''FLAG'')"
  let ?f = "lockedNode (fileNode (js ''the FLAG''))"
  have rx: "containsRx ''FLAG'' = Some ?test"
    by (simp add: containsRx_def)
  have m1: "?test (js ''the FLAG'')"
    by (simp add: includes_str_def js_def startsWith_def upt_rec)
  have m2: "\<not> ?test (js ''/vault/secret.txt'')"
    by (simp add: includes_str_def js_def startsWith_def upt_rec)
  have w: "walkDirs (fs vaultSession) [''vault'', ''secret.txt''] = Some ?f"
    and p: "pathFrom ''/'' [''vault'', ''secret.txt''] = ''/vault/secret.txt''"
    by (simp_all add: vaultSession_def vaultTree_def lockedNode_def childPath_def setMeta_def
        evalDefs)
  have f: "ntype ?f = TFile" "contents ?f = Some (js ''the FLAG'')"
    by (simp_all add: lockedNode_def fileNode_def setMeta_def)
  have d: "readFile vaultSession ''/vault/secret.txt'' = Inl PermissionDenied"
    "list_dir vaultSession ''/vault'' = Inl PermissionDenied"
    by (simp_all add: readFile_def list_dir_def vaultSession_def vaultTree_def lockedNode_def
        setMeta_def isLocked_def evalDefs)
  have "\<exists>rs. search containsRx vaultSession ''FLAG'' = Inr rs
      \<and> \<lparr>rpath = ''/vault/secret.txt'', rtype = TFile, rmatch = Content\<rparr> \<in> set rs"
    using search_ignores_locks [of containsRx "''FLAG''" ?test vaultSession
        "[''vault'', ''secret.txt'']" ?f None, OF rx]
      w f m1 m2 unfolding p by simp
  then show ?thesis using d by blast
qed

end
